theory Spec2Isabelle
  imports Complex_Main
begin

section \<open>Detrended Price Oscillator (jesse/indicators/dpo.py)\<close>

text \<open>
  The source works on one-dimensional NumPy arrays of 64-bit floats. An array is
  modelled as a list of values, an array operation that NumPy rejects (shapes that do
  not broadcast, an index out of range) as an error value.

  A float is modelled by its class: not-a-number, the two infinities, or a finite
  value. Arithmetic on finite values is exact arithmetic on the reals: rounding and
  overflow of the 64-bit format are not modelled, and the two signed zeros are one
  value.
\<close>

subsection \<open>Values and errors\<close>

datatype f64 = NaN | PInf | NInf | Fin real

datatype error = ValueError | IndexError | UnknownSourceType | InvalidPeriod

text \<open>
  \<open>ValueError\<close> is what NumPy raises for shapes that do not broadcast and
  \<open>IndexError\<close> for an index out of range. \<open>UnknownSourceType\<close> and
  \<open>InvalidPeriod\<close> are the names of the specification's error taxonomy; no
  statement of \<open>dpo.py\<close> raises \<open>InvalidPeriod\<close>.
\<close>

fun fadd :: "f64 \<Rightarrow> f64 \<Rightarrow> f64" where
  "fadd NaN y = NaN"
| "fadd x NaN = NaN"
| "fadd PInf NInf = NaN"
| "fadd NInf PInf = NaN"
| "fadd PInf y = PInf"
| "fadd x PInf = PInf"
| "fadd NInf y = NInf"
| "fadd x NInf = NInf"
| "fadd (Fin a) (Fin b) = Fin (a + b)"

fun fneg :: "f64 \<Rightarrow> f64" where
  "fneg NaN = NaN"
| "fneg PInf = NInf"
| "fneg NInf = PInf"
| "fneg (Fin a) = Fin (- a)"

definition fsub :: "f64 \<Rightarrow> f64 \<Rightarrow> f64" where
  "fsub x y = fadd x (fneg y)"

text \<open>Division of a float by the integer scalar \<open>period\<close> (converted to a float).\<close>

fun fdiv :: "f64 \<Rightarrow> int \<Rightarrow> f64" where
  "fdiv NaN p = NaN"
| "fdiv PInf p = (if p < 0 then NInf else PInf)"
| "fdiv NInf p = (if p < 0 then PInf else NInf)"
| "fdiv (Fin a) p =
     (if p = 0 then (if 0 < a then PInf else if a < 0 then NInf else NaN)
      else Fin (a / real_of_int p))"

subsection \<open>NumPy primitives on one-dimensional arrays\<close>

text \<open>
  A slice bound \<open>k\<close> on an array of length \<open>n\<close>, as Python normalises it: a
  negative bound counts from the end, and the result is clipped to \<open>0..n\<close>.
\<close>

definition slice_bound :: "nat \<Rightarrow> int \<Rightarrow> nat" where
  "slice_bound n k =
     (if k < 0 then (if k + int n < 0 then 0 else nat (k + int n))
      else (if int n < k then n else nat k))"

text \<open>\<open>a[k:]\<close> and \<open>a[:k]\<close>.\<close>

definition slice_from :: "'a list \<Rightarrow> int \<Rightarrow> 'a list" where
  "slice_from a k = drop (slice_bound (length a) k) a"

definition slice_to :: "'a list \<Rightarrow> int \<Rightarrow> 'a list" where
  "slice_to a k = take (slice_bound (length a) k) a"

text \<open>
  An elementwise binary operation on two arrays: equal lengths pair up, an array of
  length one is broadcast to the other's length (also to length zero), and any other
  pair of lengths is a \<open>ValueError\<close>.
\<close>

definition broadcast2 :: "(f64 \<Rightarrow> f64 \<Rightarrow> f64) \<Rightarrow> f64 list \<Rightarrow> f64 list \<Rightarrow> error + f64 list" where
  "broadcast2 f xs ys =
     (if length xs = length ys then Inr (map2 f xs ys)
      else if length xs = 1 then Inr (map (f (hd xs)) ys)
      else if length ys = 1 then Inr (map (\<lambda>x. f x (hd ys)) xs)
      else Inl ValueError)"

text \<open>
  \<open>a[k:] = rhs\<close> for an array \<open>rhs\<close>: the slice is overwritten when \<open>rhs\<close> has
  the slice's length or broadcasts to it from length one; otherwise \<open>ValueError\<close>.
\<close>

definition set_slice_from :: "f64 list \<Rightarrow> int \<Rightarrow> f64 list \<Rightarrow> error + f64 list" where
  "set_slice_from a k rhs =
     (let s = slice_bound (length a) k; m = length a - s
      in if length rhs = m then Inr (take s a @ rhs)
         else if length rhs = 1 then Inr (take s a @ replicate m (hd rhs))
         else Inl ValueError)"

text \<open>\<open>a[:k] = v\<close> for a scalar \<open>v\<close>.\<close>

definition fill_slice_to :: "f64 list \<Rightarrow> int \<Rightarrow> f64 \<Rightarrow> f64 list" where
  "fill_slice_to a k v =
     (let s = slice_bound (length a) k in replicate s v @ drop s a)"

text \<open>
  \<open>np.roll(a, shift)\<close> on a one-dimensional array: with \<open>offset = shift mod n\<close>
  (zero for the empty array), the last \<open>offset\<close> entries move to the front.
\<close>

definition roll :: "'a list \<Rightarrow> int \<Rightarrow> 'a list" where
  "roll a shift =
     (let n = length a in
      if n = 0 then a
      else let offset = nat (shift mod int n)
           in drop (n - offset) a @ take (n - offset) a)"

subsection \<open>The engine \<open>_dpo\<close>\<close>

text \<open>
  The prefix-sum loop
  \<^verbatim>\<open>for i in range(1, len(cumsum)): cumsum[i] = cumsum[i-1] + temp[i]\<close>
  with the loop index and the array as its state.
\<close>

function cumsum_loop :: "f64 list \<Rightarrow> nat \<Rightarrow> f64 list \<Rightarrow> f64 list" where
  "cumsum_loop temp i cumsum =
     (if i < length cumsum
      then cumsum_loop temp (Suc i) (cumsum[i := fadd (cumsum ! (i - 1)) (temp ! i)])
      else cumsum)"
  by pat_completeness auto
termination
  by (relation "measure (\<lambda>(temp, i, cumsum). length cumsum - i)") auto

declare cumsum_loop.simps [simp del]

definition zeros :: "nat \<Rightarrow> f64 list" where
  "zeros n = replicate n (Fin 0)"

text \<open>
  \<open>_dpo(source, period)\<close>, statement by statement. Every read \<open>temp[i]\<close> and
  \<open>cumsum[i-1]\<close> of the loop is in range, since \<open>temp\<close> and \<open>cumsum\<close> both
  have length \<open>len(source) + 1\<close> and \<open>1 \<le> i < len(cumsum)\<close>.
\<close>

definition underscore_dpo :: "f64 list \<Rightarrow> int \<Rightarrow> error + f64 list" where
  "underscore_dpo source period =
     (let shift = period div 2 + 1;
          sma = zeros (length source)
      in case set_slice_from (zeros (length source + 1)) 1 source of
           Inl e \<Rightarrow> Inl e
         | Inr temp \<Rightarrow>
             (let cumsum = cumsum_loop temp 1 (zeros (length source + 1))
              in case broadcast2 fsub (slice_from cumsum period) (slice_to cumsum (- period)) of
                   Inl e \<Rightarrow> Inl e
                 | Inr diff \<Rightarrow>
                     (case set_slice_from sma (period - 1) (map (\<lambda>x. fdiv x period) diff) of
                        Inl e \<Rightarrow> Inl e
                      | Inr sma' \<Rightarrow>
                          (let shifted_source = roll source shift
                           in case broadcast2 fsub shifted_source sma' of
                                Inl e \<Rightarrow> Inl e
                              | Inr dpo \<Rightarrow>
                                  Inr (fill_slice_to dpo (period - 1 + shift) NaN)))))"

subsection \<open>The public entry point \<open>dpo\<close>\<close>

text \<open>
  A candle is one row of the two-dimensional candle array: a timestamp and the open,
  close, high, low and volume fields.
\<close>

record candle =
  candle_timestamp :: f64
  candle_open :: f64
  candle_close :: f64
  candle_high :: f64
  candle_low :: f64
  candle_volume :: f64

text \<open>
  Modelled from the spec: \<open>slice_candles\<close> of \<open>jesse.helpers\<close> is not among the
  sources. The specification (its \<open>restrict_window\<close>) returns the full set unchanged
  when \<open>sequential\<close> is true and otherwise a tail window sized to what the engine
  needs. The size of that window is left open by the specification; it is the
  parameter \<open>window\<close>.
\<close>

definition slice_candles :: "nat \<Rightarrow> candle list \<Rightarrow> bool \<Rightarrow> candle list" where
  "slice_candles window candles sequential =
     (if sequential then candles else drop (length candles - window) candles)"

text \<open>
  Modelled from the spec: \<open>get_candle_source\<close> of \<open>jesse.helpers\<close> is not among
  the sources. The specification (its \<open>extract_price_series\<close>) returns the named
  field of every candle as the price series and fails with \<open>UnknownSourceType\<close> for
  an unrecognised field name. Of the extendable enumeration of field names, the five the
  specification lists are modelled.
\<close>

definition get_candle_source :: "candle list \<Rightarrow> string \<Rightarrow> error + f64 list" where
  "get_candle_source candles source_type =
     (if source_type = ''close'' then Inr (map candle_close candles)
      else if source_type = ''high'' then Inr (map candle_high candles)
      else if source_type = ''low'' then Inr (map candle_low candles)
      else if source_type = ''open'' then Inr (map candle_open candles)
      else if source_type = ''volume'' then Inr (map candle_volume candles)
      else Inl UnknownSourceType)"

text \<open>
  Modelled from the spec: \<open>same_length\<close> of \<open>jesse.helpers\<close> is not among the
  sources. The specification (its \<open>align_length\<close>) left-pads the result with the
  undefined sentinel until its length equals the original length.
\<close>

definition same_length :: "candle list \<Rightarrow> f64 list \<Rightarrow> f64 list" where
  "same_length bigger shorter = replicate (length bigger - length shorter) NaN @ shorter"

text \<open>
  \<open>a[k]\<close> for an integer \<open>k\<close>: a negative index counts from the end, and an index
  outside the array is an \<open>IndexError\<close>.
\<close>

definition getitem :: "'a list \<Rightarrow> int \<Rightarrow> error + 'a" where
  "getitem a k =
     (if 0 \<le> k \<and> k < int (length a) then Inr (a ! nat k)
      else if k < 0 \<and> 0 \<le> k + int (length a) then Inr (a ! nat (k + int (length a)))
      else Inl IndexError)"

text \<open>The result of \<open>dpo\<close> is a float or an array (\<open>Union[float, np.ndarray]\<close>).\<close>

datatype dpo_result = Scalar f64 | Series "f64 list"

text \<open>
  \<open>dpo(candles, period, source_type, sequential)\<close>; an error of a callee propagates.
\<close>

definition dpo :: "nat \<Rightarrow> candle list \<Rightarrow> int \<Rightarrow> string \<Rightarrow> bool \<Rightarrow> error + dpo_result" where
  "dpo window candles period source_type sequential =
     (let candles' = slice_candles window candles sequential
      in case get_candle_source candles' source_type of
           Inl e \<Rightarrow> Inl e
         | Inr source \<Rightarrow>
             (case underscore_dpo source period of
                Inl e \<Rightarrow> Inl e
              | Inr res \<Rightarrow>
                  (if sequential then Inr (Series (same_length candles' res))
                   else (case getitem res (- 1) of
                           Inl e \<Rightarrow> Inl e
                         | Inr v \<Rightarrow> Inr (Scalar v)))))"

subsection \<open>The engine on a store of arrays\<close>

text \<open>
  To state what the engine writes, the same statements are read a second time on an
  explicit store: a store is the list of the arrays allocated so far, and a reference
  is an index into it. Creating an array appends it to the store; an assignment into
  an array replaces the array at its reference. The run returns the store it ends in
  together with the result, also when it raises.
\<close>

type_synonym ref = nat

type_synonym store = "f64 list list"

definition alloc :: "f64 list \<Rightarrow> store \<Rightarrow> ref \<times> store" where
  "alloc a h = (length h, h @ [a])"

definition assign :: "ref \<Rightarrow> f64 list \<Rightarrow> store \<Rightarrow> store" where
  "assign r a h = h[r := a]"

text \<open>
  \<open>np.zeros_like\<close>, \<open>np.zeros\<close>, the two array subtractions, the division and
  \<open>np.roll\<close> each create an array; \<open>temp[1:] = source\<close>, the loop's
  \<open>cumsum[i] = ...\<close>, \<open>sma[period-1:] = ...\<close> and \<open>dpo[:...] = np.nan\<close> write
  into the array on their left; slices on a right-hand side are read-only views.
\<close>

definition underscore_dpo_store :: "ref \<Rightarrow> int \<Rightarrow> store \<Rightarrow> (error + ref) \<times> store" where
  "underscore_dpo_store source period h0 =
     (let shift = period div 2 + 1;
          (sma, h1) = alloc (zeros (length (h0 ! source))) h0;
          (temp, h2) = alloc (zeros (length (h1 ! source) + 1)) h1
      in case set_slice_from (h2 ! temp) 1 (h2 ! source) of
           Inl e \<Rightarrow> (Inl e, h2)
         | Inr t \<Rightarrow>
             (let h3 = assign temp t h2;
                  (cumsum, h4) = alloc (zeros (length (h3 ! source) + 1)) h3;
                  h5 = assign cumsum (cumsum_loop (h4 ! temp) 1 (h4 ! cumsum)) h4
              in case broadcast2 fsub (slice_from (h5 ! cumsum) period)
                        (slice_to (h5 ! cumsum) (- period)) of
                   Inl e \<Rightarrow> (Inl e, h5)
                 | Inr d \<Rightarrow>
                     (let (diff, h6) = alloc d h5;
                          (quot, h7) = alloc (map (\<lambda>x. fdiv x period) (h6 ! diff)) h6
                      in case set_slice_from (h7 ! sma) (period - 1) (h7 ! quot) of
                           Inl e \<Rightarrow> (Inl e, h7)
                         | Inr s \<Rightarrow>
                             (let h8 = assign sma s h7;
                                  (shifted_source, h9) = alloc (roll (h8 ! source) shift) h8
                              in case broadcast2 fsub (h9 ! shifted_source) (h9 ! sma) of
                                   Inl e \<Rightarrow> (Inl e, h9)
                                 | Inr d' \<Rightarrow>
                                     (let (dpo, h10) = alloc d' h9;
                                          h11 = assign dpo
                                                  (fill_slice_to (h10 ! dpo) (period - 1 + shift) NaN) h10
                                      in (Inr dpo, h11))))))"

text \<open>
  What the caller of a run sees: the error raised, or the contents of the array whose
  reference is returned.
\<close>

definition result_of :: "(error + ref) \<times> store \<Rightarrow> error + f64 list" where
  "result_of run = (case fst run of Inl e \<Rightarrow> Inl e | Inr r \<Rightarrow> Inr (snd run ! r))"

subsection \<open>The prefix-sum loop\<close>

lemma length_cumsum_loop: "length (cumsum_loop temp i c) = length c"
proof (induction temp i c rule: cumsum_loop.induct)
  case (1 temp i cumsum)
  show ?case
  proof (cases "i < length cumsum")
    case True
    with "1" show ?thesis by (subst cumsum_loop.simps) simp
  next
    case False
    then show ?thesis by (subst cumsum_loop.simps) simp
  qed
qed




subsection \<open>Slices, broadcasting and rotation\<close>

lemma slice_bound_nonneg: "0 \<le> k \<Longrightarrow> slice_bound n k = min (nat k) n"
  by (auto simp: slice_bound_def)

lemma slice_bound_neg: "k < 0 \<Longrightarrow> slice_bound n k = n - nat (- k)"
  by (auto simp: slice_bound_def)

lemma slice_bound_le: "slice_bound n k \<le> n"
  by (auto simp: slice_bound_def)

lemma length_slice_from: "length (slice_from a k) = length a - slice_bound (length a) k"
  by (simp add: slice_from_def)

lemma length_slice_to: "length (slice_to a k) = slice_bound (length a) k"
  by (simp add: slice_to_def slice_bound_le)

lemma length_roll: "length (roll a s) = length a"
  by (auto simp: roll_def Let_def)

lemma roll_nth:
  assumes "i < length a"
  shows "roll a s ! i = a ! nat ((int i - s) mod int (length a))"
proof -
  let ?n = "length a"
  let ?o = "nat (s mod int ?n)"
  have n: "0 < ?n" using assms by (cases a) simp_all
  have m0: "0 \<le> s mod int ?n" using n by simp
  have m1: "s mod int ?n < int ?n" using n by simp
  have o: "?o < ?n" using m0 m1 by linarith
  have so: "s mod int ?n = int ?o" using m0 by simp
  have r: "roll a s = drop (?n - ?o) a @ take (?n - ?o) a"
    using n by (simp add: roll_def Let_def)
  show ?thesis
  proof (cases "i < ?o")
    case True
    have "(int i - s) mod int ?n = (int i - s mod int ?n) mod int ?n"
      by (simp add: mod_diff_right_eq)
    also have "\<dots> = (int i - int ?o + int ?n) mod int ?n"
      using so by simp
    also have "\<dots> = int i - int ?o + int ?n"
      using True o by (intro mod_pos_pos_trivial) auto
    finally have "nat ((int i - s) mod int ?n) = ?n - ?o + i"
      using True o by linarith
    moreover have "roll a s ! i = a ! (?n - ?o + i)"
      unfolding r using True o assms by (simp add: nth_append)
    ultimately show ?thesis by simp
  next
    case False
    have "(int i - s) mod int ?n = (int i - s mod int ?n) mod int ?n"
      by (simp add: mod_diff_right_eq)
    also have "\<dots> = (int i - int ?o) mod int ?n"
      using so by simp
    also have "\<dots> = int i - int ?o"
      using False assms by (intro mod_pos_pos_trivial) auto
    finally have "nat ((int i - s) mod int ?n) = i - ?o"
      using False by linarith
    moreover have "roll a s ! i = a ! (i - ?o)"
      unfolding r using False o assms by (simp add: nth_append)
    ultimately show ?thesis by simp
  qed
qed

lemma broadcast2_same_length:
  "length xs = length ys \<Longrightarrow> broadcast2 f xs ys = Inr (map2 f xs ys)"
  by (simp add: broadcast2_def)

lemma set_slice_from_temp:
  "set_slice_from (zeros (length source + 1)) 1 source = Inr (Fin 0 # source)"
  by (simp add: set_slice_from_def slice_bound_def zeros_def Let_def)

subsection \<open>The run for a period of at least one\<close>

text \<open>The run of the engine for a period of at least one: no statement raises.\<close>

lemma underscore_dpo_pos:
  assumes "1 \<le> period"
  shows "underscore_dpo source period =
    Inr (fill_slice_to
           (map2 fsub (roll source (period div 2 + 1))
              (take (min (nat (period - 1)) (length source)) (zeros (length source)) @
               map (\<lambda>x. fdiv x period)
                 (map2 fsub
                    (drop (nat period) (cumsum_loop (Fin 0 # source) 1 (zeros (length source + 1))))
                    (take (length source + 1 - nat period)
                       (cumsum_loop (Fin 0 # source) 1 (zeros (length source + 1)))))))
           (period - 1 + (period div 2 + 1)) NaN)"
proof -
  let ?n = "length source"
  let ?cs = "cumsum_loop (Fin 0 # source) 1 (zeros (?n + 1))"
  let ?diff = "map2 fsub (drop (nat period) ?cs) (take (?n + 1 - nat period) ?cs)"
  let ?sma = "take (min (nat (period - 1)) ?n) (zeros ?n) @ map (\<lambda>x. fdiv x period) ?diff"
  have lcs: "length ?cs = ?n + 1"
    by (simp add: length_cumsum_loop zeros_def)
  have sf: "slice_from ?cs period = drop (nat period) ?cs"
    using assms lcs by (simp add: slice_from_def slice_bound_nonneg min_def)
  have st: "slice_to ?cs (- period) = take (?n + 1 - nat period) ?cs"
    using assms lcs by (simp add: slice_to_def slice_bound_neg)
  have b1: "broadcast2 fsub (slice_from ?cs period) (slice_to ?cs (- period)) = Inr ?diff"
    unfolding sf st by (rule broadcast2_same_length) (use lcs in simp)
  have ld: "length ?diff = ?n + 1 - nat period"
    using lcs by simp
  have s2: "set_slice_from (zeros ?n) (period - 1) (map (\<lambda>x. fdiv x period) ?diff) = Inr ?sma"
  proof -
    have "slice_bound ?n (period - 1) = min (nat (period - 1)) ?n"
      using assms by (simp add: slice_bound_nonneg)
    moreover have "?n - min (nat (period - 1)) ?n = ?n + 1 - nat period"
      using assms by linarith
    ultimately show ?thesis
      unfolding set_slice_from_def Let_def using ld by (simp add: zeros_def)
  qed
  have ls: "length ?sma = ?n"
    using assms lcs by (simp add: zeros_def)
  have b2: "broadcast2 fsub (roll source (period div 2 + 1)) ?sma
            = Inr (map2 fsub (roll source (period div 2 + 1)) ?sma)"
    by (rule broadcast2_same_length) (simp only: length_roll ls)
  show ?thesis
    unfolding underscore_dpo_def Let_def set_slice_from_temp sum.case b1 s2 b2 ..
qed

lemma length_fill_slice_to: "length (fill_slice_to a k v) = length a"
  using slice_bound_le [of "length a" k] by (simp add: fill_slice_to_def Let_def)

lemma fill_slice_to_nth:
  assumes "0 \<le> k" and "i < length a"
  shows "fill_slice_to a k v ! i = (if int i < k then v else a ! i)"
proof -
  let ?s = "min (nat k) (length a)"
  have f: "fill_slice_to a k v = replicate ?s v @ drop ?s a"
    using assms by (simp add: fill_slice_to_def Let_def slice_bound_nonneg)
  show ?thesis
  proof (cases "int i < k")
    case True
    then have "i < ?s" using assms by linarith
    then show ?thesis unfolding f using True by (simp add: nth_append)
  next
    case False
    then have s: "?s = nat k" "nat k \<le> i" using assms by linarith+
    have "(replicate (nat k) v @ drop (nat k) a) ! i = drop (nat k) a ! (i - nat k)"
      using s by (simp add: nth_append)
    also have "\<dots> = a ! (nat k + (i - nat k))"
      using s assms by (intro nth_drop) linarith
    also have "nat k + (i - nat k) = i" using s by linarith
    finally show ?thesis unfolding f s using False by simp
  qed
qed

lemma map2_nth:
  "i < length xs \<Longrightarrow> i < length ys \<Longrightarrow> map2 f xs ys ! i = f (xs ! i) (ys ! i)"
  by simp

lemma roll_nth_back:
  assumes "i < length a" and "0 \<le> s" and "s \<le> int i"
  shows "roll a s ! i = a ! (i - nat s)"
proof -
  have "(int i - s) mod int (length a) = int i - s"
    using assms by (intro mod_pos_pos_trivial) linarith+
  then have "nat ((int i - s) mod int (length a)) = i - nat s"
    using assms by linarith
  then show ?thesis using roll_nth [OF assms(1), of s] by simp
qed

lemma underscore_dpo_pos_entries:
  assumes "1 \<le> period"
  shows "\<exists>out. underscore_dpo source period = Inr out \<and> length out = length source \<and>
     (\<forall>i<length source.
        out ! i =
          (if int i < period - 1 + (period div 2 + 1) then NaN
           else fsub (source ! (i - nat (period div 2 + 1)))
                  (fdiv (fsub (cumsum_loop (Fin 0 # source) 1 (zeros (length source + 1)) ! (i + 1))
                              (cumsum_loop (Fin 0 # source) 1 (zeros (length source + 1)) ! (i + 1 - nat period)))
                        period)))"
proof -
  define n where "n = length source"
  define p where "p = nat period"
  define s where "s = period div 2 + 1"
  define cs where "cs = cumsum_loop (Fin 0 # source) 1 (zeros (length source + 1))"
  define diff where "diff = map2 fsub (drop p cs) (take (n + 1 - p) cs)"
  define quot where "quot = map (\<lambda>x. fdiv x period) diff"
  define sma where "sma = take (min (nat (period - 1)) n) (zeros n) @ quot"
  define m where "m = map2 fsub (roll source s) sma"
  define out where "out = fill_slice_to m (period - 1 + s) NaN"
  have run: "underscore_dpo source period = Inr out"
    unfolding out_def m_def sma_def quot_def diff_def cs_def s_def p_def n_def
    by (rule underscore_dpo_pos [OF assms])
  have p: "1 \<le> p" "period = int p" using assms by (simp_all add: p_def)
  have s: "1 \<le> s" using assms by (simp add: s_def)
  have lcs: "length cs = n + 1"
    by (simp add: cs_def n_def length_cumsum_loop zeros_def)
  have lq: "length quot = n + 1 - p"
    using lcs by (simp add: quot_def diff_def)
  have lz: "length (take (min (nat (period - 1)) n) (zeros n)) = min (p - 1) n"
    using p by (simp add: zeros_def)
  have ls: "length sma = n"
    unfolding sma_def length_append lz lq using p by linarith
  have lm: "length m = n"
    using ls by (simp add: m_def length_roll n_def)
  have lo: "length out = n"
    using lm by (simp add: out_def length_fill_slice_to)
  have quot_nth: "quot ! j = fdiv (fsub (cs ! (p + j)) (cs ! j)) period" if "j < n + 1 - p" for j
  proof -
    have "j < length diff" using that lq by (simp add: quot_def)
    then have "quot ! j = fdiv (diff ! j) period" by (simp add: quot_def)
    moreover have "diff ! j = fsub (drop p cs ! j) (take (n + 1 - p) cs ! j)"
      unfolding diff_def using that lcs by (intro map2_nth) simp_all
    moreover have "drop p cs ! j = cs ! (p + j)"
      using that lcs by (intro nth_drop) linarith
    moreover have "take (n + 1 - p) cs ! j = cs ! j"
      using that by simp
    ultimately show ?thesis by simp
  qed
  have sma_nth: "sma ! i = fdiv (fsub (cs ! (i + 1)) (cs ! (i + 1 - p))) period"
    if "i < n" "p - 1 \<le> i" for i
  proof -
    have a: "min (p - 1) n = p - 1" using that by linarith
    have "sma ! i = quot ! (i - (p - 1))"
      unfolding sma_def using that by (simp only: nth_append lz a) simp
    also have "\<dots> = fdiv (fsub (cs ! (p + (i - (p - 1)))) (cs ! (i - (p - 1)))) period"
      using that p by (intro quot_nth) linarith
    also have "p + (i - (p - 1)) = i + 1" using that p by linarith
    also have "i - (p - 1) = i + 1 - p" using that p by linarith
    finally show ?thesis .
  qed
  have entries: "out ! i =
          (if int i < period - 1 + s then NaN
           else fsub (source ! (i - nat s)) (fdiv (fsub (cs ! (i + 1)) (cs ! (i + 1 - p))) period))"
    if i: "i < n" for i
  proof (cases "int i < period - 1 + s")
    case True
    have "out ! i = (if int i < period - 1 + s then NaN else m ! i)"
      unfolding out_def using i lm p s by (intro fill_slice_to_nth) linarith+
    then show ?thesis using True by simp
  next
    case False
    have "out ! i = (if int i < period - 1 + s then NaN else m ! i)"
      unfolding out_def using i lm p s by (intro fill_slice_to_nth) linarith+
    then have "out ! i = m ! i" using False by simp
    also have "\<dots> = fsub (roll source s ! i) (sma ! i)"
      unfolding m_def using i ls by (intro map2_nth) (simp_all add: length_roll n_def)
    also have "roll source s ! i = source ! (i - nat s)"
      using i s p False by (intro roll_nth_back) (simp_all add: n_def)
    also have "sma ! i = fdiv (fsub (cs ! (i + 1)) (cs ! (i + 1 - p))) period"
      using i s p False by (intro sma_nth) linarith+
    finally show ?thesis using False by simp
  qed
  show ?thesis
    using run lo entries unfolding n_def cs_def s_def p_def by blast
qed

subsection \<open>Claims about the engine for a period of at least one\<close>


text \<open>
  Claim C7. For every price series and every period of at least one, the engine returns
  a series, and its length is the length of the input series. This covers the series
  too short to give any defined entry.
\<close>

theorem dpo_output_length:
  "1 \<le> period \<Longrightarrow>
   \<exists>out. underscore_dpo source period = Inr out \<and> length out = length source"
  using underscore_dpo_pos_entries [of period source] by blast

theorem dpo_output_length_witness:
  "(1::int) \<le> 5 \<and>
   (\<exists>out. underscore_dpo [Fin 1, Fin 2, Fin 3] 5 = Inr out \<and> length out = length [Fin 1, Fin 2, Fin 3])"
  using dpo_output_length [of 5 "[Fin 1, Fin 2, Fin 3]"] by simp








text \<open>
  The restriction to finite prices matters: the prefix sums carry a NaN forward, so
  one NaN among the prices makes every later entry NaN, also where the window of the
  moving average holds finite prices only.
\<close>

lemma underscore_dpo_nan_carried:
  "underscore_dpo [NaN, Fin 1, Fin 1] 1 = Inr [NaN, NaN, NaN]"
  by code_simp




subsection \<open>The scenario and the public entry point\<close>

lemma cumsum_loop_done: "length c \<le> i \<Longrightarrow> cumsum_loop temp i c = c"
  by (subst cumsum_loop.simps) simp

lemma underscore_dpo_empty: "underscore_dpo [] period = Inr []"
proof -
  have cs: "cumsum_loop [Fin 0] 1 (zeros (length ([] :: f64 list) + 1)) = [Fin 0]"
    by (simp add: cumsum_loop_done zeros_def)
  have t: "set_slice_from (zeros (length ([] :: f64 list) + 1)) 1 [] = Inr [Fin 0]"
    using set_slice_from_temp [of "[]"] by simp
  consider "1 \<le> period" | "period = 0" | "period < 0" by linarith
  then show ?thesis
  proof cases
    case 1
    then show ?thesis using underscore_dpo_pos_entries [of period "[]"] by auto
  next
    case 2
    show ?thesis
      unfolding underscore_dpo_def Let_def t sum.case cs
      by (simp add: 2 slice_from_def slice_to_def slice_bound_def broadcast2_def
            set_slice_from_def zeros_def roll_def fill_slice_to_def)
  next
    case 3
    then show ?thesis
      unfolding underscore_dpo_def Let_def t sum.case cs
      by (simp add: slice_from_def slice_to_def slice_bound_def broadcast2_def
            set_slice_from_def zeros_def roll_def fill_slice_to_def fsub_def)
  qed
qed


lemma underscore_dpo_scenario:
  "underscore_dpo (map Fin [1, 2, 3, 4, 5, 6, 7, 8, 9, 10]) 5
   = Inr [NaN, NaN, NaN, NaN, NaN, NaN, NaN, Fin (- 1), Fin (- 1), Fin (- 1)]"
  by code_simp

text \<open>
  Claim C6. On the series 1, 2, ..., 10 with period 5 the shift is 3 and the cutoff is
  7; the engine returns NaN at the indices 0 to 6 and -1 at the indices 7, 8 and 9; and
  the public entry point, called with sequential = False on candles from which this
  series is extracted, returns the scalar -1, the last entry of that series.
\<close>

theorem dpo_scenario:
  assumes "get_candle_source (slice_candles window candles False) source_type
           = Inr (map Fin [1, 2, 3, 4, 5, 6, 7, 8, 9, 10])"
  shows "(5::int) div 2 + 1 = 3 \<and> (5::int) - 1 + (5 div 2 + 1) = 7 \<and>
         underscore_dpo (map Fin [1, 2, 3, 4, 5, 6, 7, 8, 9, 10]) 5
           = Inr [NaN, NaN, NaN, NaN, NaN, NaN, NaN, Fin (- 1), Fin (- 1), Fin (- 1)] \<and>
         dpo window candles 5 source_type False = Inr (Scalar (Fin (- 1)))"
proof -
  have l: "getitem [NaN, NaN, NaN, NaN, NaN, NaN, NaN, Fin (- 1), Fin (- 1), Fin (- 1)] (- 1)
           = Inr (Fin (- 1))"
    by (simp add: getitem_def)
  have "dpo window candles 5 source_type False = Inr (Scalar (Fin (- 1)))"
    unfolding dpo_def Let_def assms sum.case underscore_dpo_scenario l by simp
  then show ?thesis
    using underscore_dpo_scenario by simp
qed

theorem dpo_scenario_witness:
  "get_candle_source
     (slice_candles 240
        (map (\<lambda>x. \<lparr>candle_timestamp = Fin 0, candle_open = Fin x, candle_close = Fin x,
                     candle_high = Fin x, candle_low = Fin x, candle_volume = Fin 0\<rparr>)
           [1, 2, 3, 4, 5, 6, 7, 8, 9, 10])
        False)
     ''close''
     = Inr (map Fin [1, 2, 3, 4, 5, 6, 7, 8, 9, 10]) \<and>
   dpo 240
     (map (\<lambda>x. \<lparr>candle_timestamp = Fin 0, candle_open = Fin x, candle_close = Fin x,
                  candle_high = Fin x, candle_low = Fin x, candle_volume = Fin 0\<rparr>)
        [1, 2, 3, 4, 5, 6, 7, 8, 9, 10])
     5 ''close'' False = Inr (Scalar (Fin (- 1)))"
proof -
  have g: "get_candle_source
     (slice_candles 240
        (map (\<lambda>x. \<lparr>candle_timestamp = Fin 0, candle_open = Fin x, candle_close = Fin x,
                     candle_high = Fin x, candle_low = Fin x, candle_volume = Fin 0\<rparr>)
           [1, 2, 3, 4, 5, 6, 7, 8, 9, 10])
        False)
     ''close''
     = Inr (map Fin [1, 2, 3, 4, 5, 6, 7, 8, 9, 10])"
    by (simp add: get_candle_source_def slice_candles_def)
  show ?thesis using g dpo_scenario [OF g] by simp
qed

text \<open>
  Claim C10. With sequential = False the public entry point returns the last entry of
  the computed series without a check for emptiness: when the extracted price series is
  empty (as for a candle array of length zero), the call fails with an IndexError and
  returns no NaN, for every period.
\<close>

theorem dpo_empty_index_error:
  assumes "get_candle_source (slice_candles window candles False) source_type = Inr []"
  shows "dpo window candles period source_type False = Inl IndexError"
  unfolding dpo_def Let_def assms sum.case underscore_dpo_empty
  by (simp add: getitem_def)

theorem dpo_empty_index_error_witness:
  "get_candle_source (slice_candles 240 [] False) ''close'' = Inr [] \<and>
   dpo 240 [] 5 ''close'' False = Inl IndexError"
proof -
  have g: "get_candle_source (slice_candles 240 [] False) ''close'' = Inr []"
    by (simp add: get_candle_source_def slice_candles_def)
  show ?thesis using g dpo_empty_index_error [OF g, of 5] by simp
qed

subsection \<open>Periods below one\<close>

lemma set_slice_from_ok:
  assumes "length rhs = length a - slice_bound (length a) k \<or> length rhs = 1"
  shows "\<exists>r. set_slice_from a k rhs = Inr r \<and> length r = length a"
  using assms slice_bound_le [of "length a" k]
  by (auto simp: set_slice_from_def Let_def)

lemma set_slice_from_fail:
  assumes "length rhs \<noteq> length a - slice_bound (length a) k" and "length rhs \<noteq> 1"
  shows "set_slice_from a k rhs = Inl ValueError"
  using assms by (simp add: set_slice_from_def Let_def)

lemma underscore_dpo_zero:
  "underscore_dpo source 0 = (if source = [] then Inr [] else Inl ValueError)"
proof (cases "source = []")
  case True
  then show ?thesis by (simp add: underscore_dpo_empty)
next
  case False
  define cs where "cs = cumsum_loop (Fin 0 # source) 1 (zeros (length source + 1))"
  have lcs: "length cs = length source + 1"
    by (simp add: cs_def length_cumsum_loop zeros_def)
  have n: "0 < length source" using False by simp
  have "broadcast2 fsub (slice_from cs 0) (slice_to cs (- 0)) = Inl ValueError"
    using lcs n by (simp add: broadcast2_def slice_from_def slice_to_def slice_bound_def)
  then show ?thesis
    unfolding underscore_dpo_def Let_def set_slice_from_temp sum.case cs_def [symmetric]
    using False by simp
qed

lemma underscore_dpo_negative:
  assumes "period < 0"
  shows "(source \<noteq> [] \<and> period \<noteq> - 1 \<and> int (length source) \<noteq> - period \<longrightarrow>
            underscore_dpo source period = Inl ValueError) \<and>
         (source = [] \<or> period = - 1 \<or> int (length source) = - period \<longrightarrow>
            (\<exists>out. underscore_dpo source period = Inr out \<and> length out = length source))"
proof -
  define n where "n = length source"
  define q where "q = nat (- period)"
  define cs where "cs = cumsum_loop (Fin 0 # source) 1 (zeros (length source + 1))"
  define diff where "diff = map2 fsub (drop (n + 1 - q) cs) (take (min q (n + 1)) cs)"
  define quot where "quot = map (\<lambda>x. fdiv x period) diff"
  define s where "s = n - (q + 1)"
  have q: "1 \<le> q" "period = - int q" using assms by (simp_all add: q_def)
  have lcs: "length cs = n + 1"
    by (simp add: cs_def n_def length_cumsum_loop zeros_def)
  have sf: "slice_from cs period = drop (n + 1 - q) cs"
    using assms lcs q by (simp add: slice_from_def slice_bound_neg)
  have st: "slice_to cs (- period) = take (min q (n + 1)) cs"
    using assms lcs q by (simp add: slice_to_def slice_bound_nonneg)
  have b1: "broadcast2 fsub (slice_from cs period) (slice_to cs (- period)) = Inr diff"
  proof -
    have "length (drop (n + 1 - q) cs) = length (take (min q (n + 1)) cs)"
      unfolding length_drop length_take lcs by linarith
    then show ?thesis
      unfolding sf st diff_def by (rule broadcast2_same_length)
  qed
  have lq: "length quot = min q (n + 1)"
  proof -
    have "length (drop (n + 1 - q) cs) = min q (n + 1)"
      unfolding length_drop lcs by linarith
    moreover have "length (take (min q (n + 1)) cs) = min q (n + 1)"
      unfolding length_take lcs by linarith
    ultimately show ?thesis
      unfolding quot_def diff_def by simp
  qed
  have sb: "slice_bound n (period - 1) = s"
    using q by (simp add: slice_bound_neg s_def) 
  have m: "n - s = min (q + 1) n"
    unfolding s_def by linarith
  have unf: "underscore_dpo source period =
     (case set_slice_from (zeros n) (period - 1) quot of
        Inl e \<Rightarrow> Inl e
      | Inr sma' \<Rightarrow>
          (case broadcast2 fsub (roll source (period div 2 + 1)) sma' of
             Inl e \<Rightarrow> Inl e
           | Inr d \<Rightarrow> Inr (fill_slice_to d (period - 1 + (period div 2 + 1)) NaN)))"
    unfolding underscore_dpo_def Let_def set_slice_from_temp sum.case
    unfolding cs_def [symmetric]
    unfolding b1 sum.case quot_def n_def ..
  have fail: "underscore_dpo source period = Inl ValueError"
    if "source \<noteq> []" "period \<noteq> - 1" "int (length source) \<noteq> - period"
  proof -
    have "0 < n" "q \<noteq> 1" "n \<noteq> q" using that q by (simp_all add: n_def)
    then have "length quot \<noteq> n - s" "length quot \<noteq> 1"
      unfolding lq m using q by linarith+
    then have "set_slice_from (zeros n) (period - 1) quot = Inl ValueError"
      by (intro set_slice_from_fail) (simp_all add: sb zeros_def)
    then show ?thesis unfolding unf by simp
  qed
  have ok: "\<exists>out. underscore_dpo source period = Inr out \<and> length out = length source"
    if "source = [] \<or> period = - 1 \<or> int (length source) = - period"
  proof -
    have "n = 0 \<or> q = 1 \<or> n = q" using that q by (auto simp: n_def)
    then have "length quot = n - s \<or> length quot = 1"
      unfolding lq m using q by linarith
    then have "length quot = length (zeros n) - slice_bound (length (zeros n)) (period - 1)
               \<or> length quot = 1"
      by (simp add: sb zeros_def)
    then obtain sma' where sma': "set_slice_from (zeros n) (period - 1) quot = Inr sma'"
      and ls: "length sma' = n"
      using set_slice_from_ok [of quot "zeros n" "period - 1"] by (auto simp: zeros_def)
    have b2: "broadcast2 fsub (roll source (period div 2 + 1)) sma'
              = Inr (map2 fsub (roll source (period div 2 + 1)) sma')"
      by (rule broadcast2_same_length) (simp add: length_roll ls n_def)
    show ?thesis
      unfolding unf sma' sum.case b2
      using ls by (simp add: length_fill_slice_to length_roll n_def)
  qed
  show ?thesis using fail ok by blast
qed


lemma underscore_dpo_not_invalid_period:
  "underscore_dpo source period \<noteq> Inl InvalidPeriod"
proof -
  consider "1 \<le> period" | "period = 0" | "period < 0" by linarith
  then show ?thesis
  proof cases
    case 1
    then show ?thesis using underscore_dpo_pos_entries [of period source] by auto
  next
    case 2
    then show ?thesis by (simp add: underscore_dpo_zero)
  next
    case 3
    then show ?thesis using underscore_dpo_negative [of period source] by force
  qed
qed

lemma get_candle_source_error:
  "get_candle_source candles source_type = Inl e \<Longrightarrow> e = UnknownSourceType"
  by (simp add: get_candle_source_def split: if_splits)

lemma getitem_error: "getitem a k = Inl e \<Longrightarrow> e = IndexError"
  by (simp add: getitem_def split: if_splits)

lemma dpo_not_invalid_period:
  "dpo window candles period source_type sequential \<noteq> Inl InvalidPeriod"
proof (cases "get_candle_source (slice_candles window candles sequential) source_type")
  case (Inl e)
  then have "e = UnknownSourceType" by (rule get_candle_source_error)
  then show ?thesis using Inl by (simp add: dpo_def Let_def)
next
  case g: (Inr source)
  show ?thesis
  proof (cases "underscore_dpo source period")
    case (Inl e)
    then have "e \<noteq> InvalidPeriod"
      using underscore_dpo_not_invalid_period [of source period] by auto
    then show ?thesis using g Inl by (simp add: dpo_def Let_def)
  next
    case r: (Inr res)
    show ?thesis
    proof (cases "getitem res (- 1)")
      case (Inl e)
      then have "e = IndexError" by (rule getitem_error)
      then show ?thesis using g r Inl by (simp add: dpo_def Let_def)
    next
      case (Inr v)
      then show ?thesis using g r by (simp add: dpo_def Let_def)
    qed
  qed
qed

text \<open>
  Claim C2, as amended. The source has no check of the period and never raises
  InvalidPeriod, neither in the engine nor in the public entry point. For a period below
  one the engine fails, with the ValueError of a shape mismatch and without an output
  series, when the series is not empty and the period is 0, or is below -1 and is not
  minus the length of the series. When the series is empty, or the period is -1, or the
  period is minus the length of the series, the engine returns a series of the
  input's length.
\<close>

theorem dpo_period_below_one:
  assumes "period < 1"
  shows "underscore_dpo source period \<noteq> Inl InvalidPeriod \<and>
         dpo window candles period source_type sequential \<noteq> Inl InvalidPeriod \<and>
         (source \<noteq> [] \<and> (period = 0 \<or> (period \<noteq> - 1 \<and> int (length source) \<noteq> - period)) \<longrightarrow>
            underscore_dpo source period = Inl ValueError) \<and>
         (source = [] \<or> period = - 1 \<or> int (length source) = - period \<longrightarrow>
            (\<exists>out. underscore_dpo source period = Inr out \<and> length out = length source))"
proof -
  have d: "dpo window candles period source_type sequential \<noteq> Inl InvalidPeriod"
    by (rule dpo_not_invalid_period)
  consider "period = 0" | "period < 0" using assms by linarith
  then show ?thesis
  proof cases
    case 1
    then show ?thesis
      using d underscore_dpo_not_invalid_period [of source period]
      by (auto simp: underscore_dpo_zero)
  next
    case 2
    then show ?thesis
      using d underscore_dpo_not_invalid_period [of source period]
        underscore_dpo_negative [of period source]
      by blast
  qed
qed

theorem dpo_period_below_one_witness:
  "(- 3 :: int) < 1 \<and> underscore_dpo [Fin 1, Fin 2, Fin 3, Fin 4] (- 3) = Inl ValueError \<and>
   (\<exists>out. underscore_dpo [Fin 1, Fin 2, Fin 3] (- 3) = Inr out \<and> length out = 3)"
  using dpo_period_below_one [of "- 3" "[Fin 1, Fin 2, Fin 3, Fin 4]"]
    dpo_period_below_one [of "- 3" "[Fin 1, Fin 2, Fin 3]"]
  by (simp add: numeral_3_eq_3)

text \<open>
  The claim as first stated, that every period below one is rejected with
  InvalidPeriod and no output, fails on the series 1, 2, 3 with period -3: the engine
  returns a series of three finite values.
\<close>

theorem dpo_negative_period_returns:
  "(- 3 :: int) < 1 \<and>
   underscore_dpo [Fin 1, Fin 2, Fin 3] (- 3) = Inr [Fin (7 / 3), Fin (11 / 3), Fin 2]"
  by code_simp

subsection \<open>Effects of a run and determinism\<close>

text \<open>
  The run on a store leaves the arrays it found as they were, and what it returns is
  what the engine computes from the contents of the input array.
\<close>

lemma underscore_dpo_store_run:
  assumes "source < length h"
  shows "take (length h) (snd (underscore_dpo_store source period h)) = h \<and>
         result_of (underscore_dpo_store source period h) = underscore_dpo (h ! source) period \<and>
         (\<forall>r. fst (underscore_dpo_store source period h) = Inr r \<longrightarrow>
              length h \<le> r \<and> r < length (snd (underscore_dpo_store source period h)))"
  using assms
  by (auto simp: underscore_dpo_store_def underscore_dpo_def result_of_def alloc_def assign_def
        Let_def nth_append nth_list_update split: sum.splits)


text \<open>
  Claim C8. The engine never writes into its input: after a run, successful or not,
  every array that existed before the call, the input series among them, is unchanged.
  The run only adds arrays to the store, and the array it returns is one of those it
  created.
\<close>

theorem dpo_input_unchanged:
  assumes "source < length h"
  shows "snd (underscore_dpo_store source period h) ! source = h ! source \<and>
         take (length h) (snd (underscore_dpo_store source period h)) = h \<and>
         (\<forall>r. fst (underscore_dpo_store source period h) = Inr r \<longrightarrow>
              length h \<le> r \<and> r < length (snd (underscore_dpo_store source period h)))"
proof -
  have t: "take (length h) (snd (underscore_dpo_store source period h)) = h"
    using underscore_dpo_store_run [OF assms, of period] by blast
  have "snd (underscore_dpo_store source period h) ! source
        = take (length h) (snd (underscore_dpo_store source period h)) ! source"
    using assms by simp
  then have "snd (underscore_dpo_store source period h) ! source = h ! source"
    unfolding t .
  then show ?thesis
    using underscore_dpo_store_run [OF assms, of period] by blast
qed

theorem dpo_input_unchanged_witness:
  "(1::nat) < length [[NaN], [Fin 4, Fin 8, Fin 15, Fin 16]] \<and>
   snd (underscore_dpo_store 1 2 [[NaN], [Fin 4, Fin 8, Fin 15, Fin 16]]) ! 1
     = [Fin 4, Fin 8, Fin 15, Fin 16] \<and>
   take 2 (snd (underscore_dpo_store 1 2 [[NaN], [Fin 4, Fin 8, Fin 15, Fin 16]]))
     = [[NaN], [Fin 4, Fin 8, Fin 15, Fin 16]]"
  using dpo_input_unchanged [of 1 "[[NaN], [Fin 4, Fin 8, Fin 15, Fin 16]]" 2]
  by (simp add: numeral_2_eq_2)

text \<open>
  Claim C9. The engine is deterministic: two runs on equal price series with the same
  period, started in any two stores, raise the same error or return arrays that are
  equal at every index.
\<close>

theorem dpo_deterministic:
  assumes "source1 < length h1" and "source2 < length h2" and "h1 ! source1 = h2 ! source2"
  shows "result_of (underscore_dpo_store source1 period h1)
         = result_of (underscore_dpo_store source2 period h2)"
proof -
  have "result_of (underscore_dpo_store source1 period h1) = underscore_dpo (h1 ! source1) period"
    using underscore_dpo_store_run [OF assms(1), of period] by blast
  moreover have "result_of (underscore_dpo_store source2 period h2) = underscore_dpo (h2 ! source2) period"
    using underscore_dpo_store_run [OF assms(2), of period] by blast
  ultimately show ?thesis using assms(3) by simp
qed

theorem dpo_deterministic_witness:
  "(0::nat) < length [[Fin 4, Fin 8, Fin 15, Fin 16]] \<and>
   (1::nat) < length [[NaN], [Fin 4, Fin 8, Fin 15, Fin 16]] \<and>
   [[Fin 4, Fin 8, Fin 15, Fin 16]] ! 0 = [[NaN], [Fin 4, Fin 8, Fin 15, Fin 16]] ! 1 \<and>
   result_of (underscore_dpo_store 0 2 [[Fin 4, Fin 8, Fin 15, Fin 16]])
     = result_of (underscore_dpo_store 1 2 [[NaN], [Fin 4, Fin 8, Fin 15, Fin 16]])"
  using dpo_deterministic [of 0 "[[Fin 4, Fin 8, Fin 15, Fin 16]]" 1
      "[[NaN], [Fin 4, Fin 8, Fin 15, Fin 16]]" 2]
  by simp

lemma underscore_dpo_store_example:
  "result_of (underscore_dpo_store 1 2 [[NaN], [Fin 4, Fin 8, Fin 15, Fin 16]]) = Inr [NaN, NaN, NaN, Fin (- 15 / 2)]"
  by code_simp

end
